theory Spec2Isabelle
  imports Main "HOL-Library.Word" "HOL-Library.Multiset"
begin

section \<open>The user service of snake: data model\<close>

text \<open>
  The model follows the user service (package \<open>user\<close>) of the repository: the
  follow/unfollow transactions, the batch aggregation of user views, the phone login and
  the follow test. User IDs are Go's \<open>uint64\<close>; \<open>int\<close> values that are only compared,
  printed or added are mathematical integers.
\<close>

type_synonym uid = "64 word"

text \<open>
  Go's \<open>error\<close> values. \<open>errors.Wrap\<close> keeps the cause and adds a message; on a nil
  error it returns nil.
\<close>

datatype error =
    ErrRecordNotFound
  | RepoError string
  | Wrapped error string

definition errors_Wrap :: "error option \<Rightarrow> string \<Rightarrow> error option" where
  "errors_Wrap err msg = (case err of None \<Rightarrow> None | Some e \<Rightarrow> Some (Wrapped e msg))"

definition FollowStatusNormal :: int where
  "FollowStatusNormal = 1"

definition FollowStatusDelete :: int where
  "FollowStatusDelete = 0"

section \<open>Follow and unfollow: the four-step transaction\<close>

text \<open>
  Modelled from the spec: the persistence layer and the repositories
  (\<open>userFollowRepo\<close>, \<open>userStatRepo\<close>, \<open>gorm\<close>'s transaction handle) are not under src/.
  The database holds the follow rows keyed by (follower, followee), the fan rows keyed by
  (followee, follower), each with a status, and the two counters of every user (a user
  without a stat row counts as 0).
\<close>

record db =
  follow_tbl :: "(uid \<times> uid) \<rightharpoonup> int"
  fans_tbl :: "(uid \<times> uid) \<rightharpoonup> int"
  follow_count :: "uid \<Rightarrow> int"
  follower_count :: "uid \<Rightarrow> int"

datatype tx_status = Active | Committed | RolledBack

text \<open>
  Modelled from the spec: a transaction handle. \<open>store\<close> is the committed database,
  \<open>pending\<close> is what the transaction has written so far; \<open>Commit\<close> publishes the
  pending writes, \<open>Rollback\<close> discards them.
\<close>

record tx =
  store :: db
  pending :: db
  status :: tx_status

definition Begin :: "db \<Rightarrow> tx" where
  "Begin d = \<lparr>store = d, pending = d, status = Active\<rparr>"

definition Rollback :: "tx \<Rightarrow> tx" where
  "Rollback t = t\<lparr>pending := store t, status := RolledBack\<rparr>"

text \<open>
  What a repository step can do: return nil, return an error, or panic. The faults are
  injected from outside: a step with a fault leaves the transaction as it was.
\<close>

datatype fault = NoFault | Fail error | Panic

datatype step = StepFollow | StepFans | StepFollowCount | StepFollowerCount | StepCommit

datatype 'a result = Ok 'a | Err error | Panicked

definition attempt :: "fault \<Rightarrow> tx \<Rightarrow> tx result" where
  "attempt f t = (case f of NoFault \<Rightarrow> Ok t | Fail e \<Rightarrow> Err e | Panic \<Rightarrow> Panicked)"

text \<open>
  Modelled from the spec: \<open>CreateFollowEdge\<close> and \<open>CreateFanEdge\<close> create or reactivate
  the row as Normal; \<open>UpdateFollowStatus\<close> and \<open>UpdateFanStatus\<close> set the status of an
  existing row (an update of a missing row changes nothing); the two \<open>Incr\<close> operations
  add the delta to the counter.
\<close>

definition CreateUserFollow :: "fault \<Rightarrow> tx \<Rightarrow> uid \<Rightarrow> uid \<Rightarrow> tx result" where
  "CreateUserFollow f t userID followedUID =
     attempt f (t\<lparr>pending := (pending t)\<lparr>follow_tbl :=
        (follow_tbl (pending t))((userID, followedUID) \<mapsto> FollowStatusNormal)\<rparr>\<rparr>)"

definition CreateUserFans :: "fault \<Rightarrow> tx \<Rightarrow> uid \<Rightarrow> uid \<Rightarrow> tx result" where
  "CreateUserFans f t userID followerUID =
     attempt f (t\<lparr>pending := (pending t)\<lparr>fans_tbl :=
        (fans_tbl (pending t))((userID, followerUID) \<mapsto> FollowStatusNormal)\<rparr>\<rparr>)"

definition UpdateUserFollowStatus :: "fault \<Rightarrow> tx \<Rightarrow> uid \<Rightarrow> uid \<Rightarrow> int \<Rightarrow> tx result" where
  "UpdateUserFollowStatus f t userID followedUID st =
     attempt f (case follow_tbl (pending t) (userID, followedUID) of
        None \<Rightarrow> t
      | Some _ \<Rightarrow> t\<lparr>pending := (pending t)\<lparr>follow_tbl :=
          (follow_tbl (pending t))((userID, followedUID) \<mapsto> st)\<rparr>\<rparr>)"

definition UpdateUserFansStatus :: "fault \<Rightarrow> tx \<Rightarrow> uid \<Rightarrow> uid \<Rightarrow> int \<Rightarrow> tx result" where
  "UpdateUserFansStatus f t userID followerUID st =
     attempt f (case fans_tbl (pending t) (userID, followerUID) of
        None \<Rightarrow> t
      | Some _ \<Rightarrow> t\<lparr>pending := (pending t)\<lparr>fans_tbl :=
          (fans_tbl (pending t))((userID, followerUID) \<mapsto> st)\<rparr>\<rparr>)"

definition IncrFollowCount :: "fault \<Rightarrow> tx \<Rightarrow> uid \<Rightarrow> int \<Rightarrow> tx result" where
  "IncrFollowCount f t userID delta =
     attempt f (t\<lparr>pending := (pending t)\<lparr>follow_count :=
        (follow_count (pending t))(userID := follow_count (pending t) userID + delta)\<rparr>\<rparr>)"

definition IncrFollowerCount :: "fault \<Rightarrow> tx \<Rightarrow> uid \<Rightarrow> int \<Rightarrow> tx result" where
  "IncrFollowerCount f t userID delta =
     attempt f (t\<lparr>pending := (pending t)\<lparr>follower_count :=
        (follower_count (pending t))(userID := follower_count (pending t) userID + delta)\<rparr>\<rparr>)"

definition Commit :: "fault \<Rightarrow> tx \<Rightarrow> tx result" where
  "Commit f t = attempt f (t\<lparr>store := pending t, status := Committed\<rparr>)"

text \<open>
  \<open>AddUserFollow\<close>, step by step as in the source. The deferred function recovers a
  panic of any step, rolls back, and the call then returns its zero result (nil). Every
  error branch rolls back before returning, except the one after \<open>IncrFollowerCount\<close>,
  which returns with the transaction still open. The result is the returned error and the
  transaction handle as the call leaves it.
\<close>

definition AddUserFollow :: "(step \<Rightarrow> fault) \<Rightarrow> db \<Rightarrow> uid \<Rightarrow> uid \<Rightarrow> error option \<times> tx" where
  "AddUserFollow fl d userID followedUID =
    (let t0 = Begin d in
     case CreateUserFollow (fl StepFollow) t0 userID followedUID of
       Panicked \<Rightarrow> (None, Rollback t0)
     | Err e \<Rightarrow> (errors_Wrap (Some e) ''insert into user follow err'', Rollback t0)
     | Ok t1 \<Rightarrow>
    (case CreateUserFans (fl StepFans) t1 followedUID userID of
       Panicked \<Rightarrow> (None, Rollback t1)
     | Err e \<Rightarrow> (errors_Wrap (Some e) ''insert into user fans err'', Rollback t1)
     | Ok t2 \<Rightarrow>
    (case IncrFollowCount (fl StepFollowCount) t2 userID 1 of
       Panicked \<Rightarrow> (None, Rollback t2)
     | Err e \<Rightarrow> (errors_Wrap (Some e) ''update user follow count err'', Rollback t2)
     | Ok t3 \<Rightarrow>
    (case IncrFollowerCount (fl StepFollowerCount) t3 followedUID 1 of
       Panicked \<Rightarrow> (None, Rollback t3)
     | Err e \<Rightarrow> (errors_Wrap (Some e) ''update user fans count err'', t3)
     | Ok t4 \<Rightarrow>
    (case Commit (fl StepCommit) t4 of
       Panicked \<Rightarrow> (None, Rollback t4)
     | Err e \<Rightarrow> (errors_Wrap (Some e) ''tx commit err'', Rollback t4)
     | Ok t5 \<Rightarrow> (None, t5))))))"

definition CancelUserFollow :: "(step \<Rightarrow> fault) \<Rightarrow> db \<Rightarrow> uid \<Rightarrow> uid \<Rightarrow> error option \<times> tx" where
  "CancelUserFollow fl d userID followedUID =
    (let t0 = Begin d in
     case UpdateUserFollowStatus (fl StepFollow) t0 userID followedUID FollowStatusDelete of
       Panicked \<Rightarrow> (None, Rollback t0)
     | Err e \<Rightarrow> (errors_Wrap (Some e) ''update user follow err'', Rollback t0)
     | Ok t1 \<Rightarrow>
    (case UpdateUserFansStatus (fl StepFans) t1 followedUID userID FollowStatusDelete of
       Panicked \<Rightarrow> (None, Rollback t1)
     | Err e \<Rightarrow> (errors_Wrap (Some e) ''update user follow err'', Rollback t1)
     | Ok t2 \<Rightarrow>
    (case IncrFollowCount (fl StepFollowCount) t2 userID (- 1) of
       Panicked \<Rightarrow> (None, Rollback t2)
     | Err e \<Rightarrow> (errors_Wrap (Some e) ''update user follow count err'', Rollback t2)
     | Ok t3 \<Rightarrow>
    (case IncrFollowerCount (fl StepFollowerCount) t3 followedUID (- 1) of
       Panicked \<Rightarrow> (None, Rollback t3)
     | Err e \<Rightarrow> (errors_Wrap (Some e) ''update user fans count err'', Rollback t3)
     | Ok t4 \<Rightarrow>
    (case Commit (fl StepCommit) t4 of
       Panicked \<Rightarrow> (None, Rollback t4)
     | Err e \<Rightarrow> (errors_Wrap (Some e) ''tx commit err'', Rollback t4)
     | Ok t5 \<Rightarrow> (None, t5))))))"

text \<open>Test data: an empty database, no fault, and a fault at one step only.\<close>

definition empty_db :: db where
  "empty_db = \<lparr>follow_tbl = Map.empty, fans_tbl = Map.empty,
               follow_count = (\<lambda>_. 0), follower_count = (\<lambda>_. 0)\<rparr>"

definition no_fault :: "step \<Rightarrow> fault" where
  "no_fault s = NoFault"

definition fault_at :: "step \<Rightarrow> error \<Rightarrow> step \<Rightarrow> fault" where
  "fault_at s e s' = (if s' = s then Fail e else NoFault)"

text \<open>
  What a committed call has written: the four records of a follow, and of an unfollow,
  as the steps above write them.
\<close>

definition follow_effect :: "db \<Rightarrow> uid \<Rightarrow> uid \<Rightarrow> db" where
  "follow_effect d a b =
     d\<lparr>follow_tbl := (follow_tbl d)((a, b) \<mapsto> FollowStatusNormal),
       fans_tbl := (fans_tbl d)((b, a) \<mapsto> FollowStatusNormal),
       follow_count := (follow_count d)(a := follow_count d a + 1),
       follower_count := (follower_count d)(b := follower_count d b + 1)\<rparr>"

definition unfollow_effect :: "db \<Rightarrow> uid \<Rightarrow> uid \<Rightarrow> db" where
  "unfollow_effect d a b =
     d\<lparr>follow_tbl := (case follow_tbl d (a, b) of None \<Rightarrow> follow_tbl d
                       | Some _ \<Rightarrow> (follow_tbl d)((a, b) \<mapsto> FollowStatusDelete)),
       fans_tbl := (case fans_tbl d (b, a) of None \<Rightarrow> fans_tbl d
                       | Some _ \<Rightarrow> (fans_tbl d)((b, a) \<mapsto> FollowStatusDelete)),
       follow_count := (follow_count d)(a := follow_count d a - 1),
       follower_count := (follower_count d)(b := follower_count d b - 1)\<rparr>"

text \<open>
  Sequences of calls, for the properties that speak of them: each call comes with the
  faults injected into it, and leaves the committed database to the next call.
\<close>

datatype op = Follow uid uid | Unfollow uid uid

definition exec_op :: "(step \<Rightarrow> fault) \<Rightarrow> op \<Rightarrow> db \<Rightarrow> error option \<times> db" where
  "exec_op fl c d =
     (case c of
        Follow a b \<Rightarrow> (let (e, t) = AddUserFollow fl d a b in (e, store t))
      | Unfollow a b \<Rightarrow> (let (e, t) = CancelUserFollow fl d a b in (e, store t)))"

fun run_ops :: "((step \<Rightarrow> fault) \<times> op) list \<Rightarrow> db \<Rightarrow> (error option \<times> db) list" where
  "run_ops [] d = []"
| "run_ops ((fl, c) # rest) d = (let r = exec_op fl c d in r # run_ops rest (snd r))"

text \<open>
  The follow edge of (a, b) and its fan projection agree: both rows are absent, both are
  Normal or both are Deleted.
\<close>

definition edge_agree :: "db \<Rightarrow> uid \<Rightarrow> uid \<Rightarrow> bool" where
  "edge_agree d a b =
     (follow_tbl d (a, b) = fans_tbl d (b, a) \<and>
      (follow_tbl d (a, b) = None \<or> follow_tbl d (a, b) = Some FollowStatusNormal
        \<or> follow_tbl d (a, b) = Some FollowStatusDelete))"

section \<open>The follow test\<close>

record UserFollowModel =
  FollowID :: uid
  FollowUserID :: uid
  FollowedUID :: uid
  Status :: int

definition zero_follow :: UserFollowModel where
  "zero_follow = \<lparr>FollowID = 0, FollowUserID = 0, FollowedUID = 0, Status = 0\<rparr>"

text \<open>
  \<open>IsFollowedUser\<close>. The query (\<open>Where(...).Find(userFollowModel)\<close>) is the
  persistence layer's: it is a parameter that gives the record it filled in and its
  error. A query that finds nothing leaves the zero record.
\<close>

definition IsFollowedUser ::
  "(uid \<Rightarrow> uid \<Rightarrow> UserFollowModel \<times> error option) \<Rightarrow> uid \<Rightarrow> uid \<Rightarrow> bool" where
  "IsFollowedUser find_follow userID followedUID =
     (let (userFollowModel, err) = find_follow userID followedUID in
      if err \<noteq> None then False
      else if FollowID userFollowModel > 0 \<and> Status userFollowModel = FollowStatusNormal
      then True
      else False)"

text \<open>A query over the follow table of the database above, with an optional failure.\<close>

definition db_find_follow ::
  "db \<Rightarrow> error option \<Rightarrow> uid \<Rightarrow> uid \<Rightarrow> UserFollowModel \<times> error option" where
  "db_find_follow d failure userID followedUID =
     (case failure of
        Some e \<Rightarrow> (zero_follow, Some e)
      | None \<Rightarrow>
         (case follow_tbl d (userID, followedUID) of
            None \<Rightarrow> (zero_follow, Some ErrRecordNotFound)
          | Some st \<Rightarrow> (\<lparr>FollowID = 1, FollowUserID = userID, FollowedUID = followedUID,
                          Status = st\<rparr>, None)))"

section \<open>Batch aggregation of user views\<close>

record UserBaseModel =
  ID :: uid
  Username :: string
  Password :: string
  Phone :: int
  Email :: string

record UserFansModel =
  FansID :: uid
  FansUserID :: uid
  FollowerUID :: uid
  FansStatus :: int

record UserStatModel =
  FollowCount :: int
  FollowerCount :: int

record TransferUserInput =
  CurUser :: "UserBaseModel option"
  User :: UserBaseModel
  UserStat :: "UserStatModel option"
  IsFollow :: int
  IsFans :: int

text \<open>
  Modelled from the spec: \<open>model.UserInfo\<close> and \<open>idl.TransferUser\<close> are not under src/.
  The aggregated view is a composite of the user record, the two relationship flags and
  the stat record (nil when the user has none).
\<close>

record UserInfo =
  info_User :: UserBaseModel
  info_IsFollow :: bool
  info_IsFans :: bool
  info_Stat :: "UserStatModel option"

definition TransferUser :: "TransferUserInput \<Rightarrow> UserInfo" where
  "TransferUser inp =
     \<lparr>info_User = User inp, info_IsFollow = (IsFollow inp = 1),
      info_IsFans = (IsFans inp = 1), info_Stat = UserStat inp\<rparr>"

text \<open>
  The repositories the aggregation reads are not under src/: each lookup is a parameter
  that gives Go's pair of a value and an error.
\<close>

record env =
  GetUsersByIds :: "uid list \<Rightarrow> UserBaseModel list \<times> error option"
  GetUserByID :: "uid \<Rightarrow> UserBaseModel option \<times> error option"
  GetFollowByUIds :: "uid \<Rightarrow> uid list \<Rightarrow> (uid \<rightharpoonup> UserFollowModel) \<times> error option"
  GetFansByUIds :: "uid \<Rightarrow> uid list \<Rightarrow> (uid \<rightharpoonup> UserFansModel) \<times> error option"
  GetUserStatByIDs :: "uid list \<Rightarrow> (uid \<rightharpoonup> UserStatModel) \<times> error option"

text \<open>
  What the scheduler decides in a call: the order in which the workers take the mutex
  (each number picks one of the workers still waiting), and which case the final
  \<open>select\<close> takes when both of its channels can deliver.
\<close>

record schedule =
  lock_order :: "nat list"
  select_finished :: bool

fun interleave :: "nat list \<Rightarrow> 'a list \<Rightarrow> 'a list" where
  "interleave ps [] = []"
| "interleave [] (r # rs) = r # rs"
| "interleave (p # ps) (r # rs) =
     (let k = p mod length (r # rs)
      in (r # rs) ! k # interleave ps (take k (r # rs) @ drop (Suc k) (r # rs)))"

text \<open>A call returns, blocks for ever, or panics.\<close>

datatype 'a outcome = Returns 'a | Blocks | Panics

text \<open>
  \<open>errChan\<close> has one slot. A send of a non-nil error into the full channel blocks; while
  the main goroutine sends, nothing receives, so it blocks for ever (\<open>None\<close>).
\<close>

definition send_if_err :: "error option \<Rightarrow> error option \<Rightarrow> error option option" where
  "send_if_err errChan err =
     (case err of
        None \<Rightarrow> Some errChan
      | Some e \<Rightarrow> (case errChan of None \<Rightarrow> Some (Some e) | Some _ \<Rightarrow> None))"

text \<open>
  The state the workers share: the slot of \<open>errChan\<close>, the map under the mutex, and
  whether a worker is stuck in a send while it holds the mutex (then no other worker
  runs and the wait group never completes).
\<close>

record wstate =
  errChan :: "error option"
  IDMap :: "uid \<rightharpoonup> UserInfo"
  stuck :: bool

text \<open>
  One worker (the goroutine of the loop over \<open>users\<close>). \<open>err\<close> is the variable of the
  enclosing function, which holds the error of the last lookup (\<open>GetUserStatByIDs\<close>).
\<close>

definition worker ::
  "UserBaseModel option \<Rightarrow> (uid \<rightharpoonup> UserFollowModel) \<Rightarrow> (uid \<rightharpoonup> UserFansModel) \<Rightarrow>
   (uid \<rightharpoonup> UserStatModel) \<Rightarrow> error option \<Rightarrow> wstate \<Rightarrow> UserBaseModel \<Rightarrow> wstate" where
  "worker curUser userFollowMap userFansMap userStatMap err w u =
     (if stuck w then w
      else
        let isFollow = (if userFollowMap (ID u) \<noteq> None then 1 else 0);
            isFollowed = (if userFansMap (ID u) \<noteq> None then 1 else 0);
            transInput = \<lparr>CurUser = curUser, User = u, UserStat = userStatMap (ID u),
                          IsFollow = isFollow, IsFans = isFollowed\<rparr>;
            userInfo = TransferUser transInput
        in case err of
             Some e \<Rightarrow>
               (case errChan w of
                  None \<Rightarrow> w\<lparr>errChan := Some e\<rparr>
                | Some _ \<Rightarrow> w\<lparr>stuck := True\<rparr>)
           | None \<Rightarrow> w\<lparr>IDMap := (IDMap w)(ID u \<mapsto> userInfo)\<rparr>)"

text \<open>
  The \<open>select\<close> and the final loop. \<open>finished\<close> is closed once every worker is done.
  With an error in the channel and the workers done, both cases can proceed and the
  scheduler's choice decides; with a worker stuck, only the channel can deliver.
\<close>

definition select_and_merge ::
  "schedule \<Rightarrow> wstate \<Rightarrow> uid list \<Rightarrow> (UserInfo option list option \<times> error option) outcome" where
  "select_and_merge s w ids =
     (case errChan w of
        None \<Rightarrow> if stuck w then Blocks else Returns (Some (map (IDMap w) ids), None)
      | Some e \<Rightarrow>
          if \<not> stuck w \<and> select_finished s
          then Returns (Some (map (IDMap w) ids), None)
          else Returns (None, Some e))"

definition BatchGetUsers ::
  "env \<Rightarrow> schedule \<Rightarrow> uid \<Rightarrow> uid list \<Rightarrow>
   (UserInfo option list option \<times> error option) outcome" where
  "BatchGetUsers env s userID userIDs =
    (let (users, err) = GetUsersByIds env userIDs in
     if err \<noteq> None
     then Returns (None, errors_Wrap err ''[user_service] batch get user err'')
     else
     let (curUser, err) = GetUserByID env userID in
     if err \<noteq> None
     then Returns (None, errors_Wrap err ''[user_service] get one user err'')
     else
     let ids = userIDs;
         (userFollowMap, err) = GetFollowByUIds env userID userIDs in
     (case send_if_err None err of
        None \<Rightarrow> Blocks
      | Some ch1 \<Rightarrow>
     let (userFansMap, err) = GetFansByUIds env userID userIDs in
     (case send_if_err ch1 err of
        None \<Rightarrow> Blocks
      | Some ch2 \<Rightarrow>
     let (userStatMap, err) = GetUserStatByIDs env userIDs in
     (case send_if_err ch2 err of
        None \<Rightarrow> Blocks
      | Some ch3 \<Rightarrow>
     let w = foldl (worker curUser userFollowMap userFansMap userStatMap err)
               \<lparr>errChan = ch3, IDMap = Map.empty, stuck = False\<rparr>
               (interleave (lock_order s) users)
     in select_and_merge s w ids))))"

definition GetUserInfoByID ::
  "env \<Rightarrow> schedule \<Rightarrow> uid \<Rightarrow> (UserInfo option \<times> error option) outcome" where
  "GetUserInfoByID env s userID =
     (case BatchGetUsers env s userID [userID] of
        Blocks \<Rightarrow> Blocks
      | Panics \<Rightarrow> Panics
      | Returns (userInfos, err) \<Rightarrow>
          if err \<noteq> None then Returns (None, err)
          else (case userInfos of
                  Some (x # rest) \<Rightarrow> Returns (x, None)
                | _ \<Rightarrow> Panics))"

text \<open>
  The view of one user record in a call, from the results of the five lookups: what the
  properties below compare the output with. \<open>is_view_for\<close> says that an output entry is
  the entry for a target ID: nil when the repository returned no record with that ID, the
  view of a returned record with that ID otherwise.
\<close>

definition view_in ::
  "UserBaseModel option \<Rightarrow> (uid \<rightharpoonup> UserFollowModel) \<Rightarrow> (uid \<rightharpoonup> UserFansModel) \<Rightarrow>
   (uid \<rightharpoonup> UserStatModel) \<Rightarrow> UserBaseModel \<Rightarrow> UserInfo" where
  "view_in curUser userFollowMap userFansMap userStatMap u =
     TransferUser
       \<lparr>CurUser = curUser, User = u, UserStat = userStatMap (ID u),
        IsFollow = (if userFollowMap (ID u) \<noteq> None then 1 else 0),
        IsFans = (if userFansMap (ID u) \<noteq> None then 1 else 0)\<rparr>"

definition user_view :: "env \<Rightarrow> uid \<Rightarrow> uid list \<Rightarrow> UserBaseModel \<Rightarrow> UserInfo" where
  "user_view env userID userIDs u =
     view_in (fst (GetUserByID env userID)) (fst (GetFollowByUIds env userID userIDs))
       (fst (GetFansByUIds env userID userIDs)) (fst (GetUserStatByIDs env userIDs)) u"

definition is_view_for :: "env \<Rightarrow> uid \<Rightarrow> uid list \<Rightarrow> uid \<Rightarrow> UserInfo option \<Rightarrow> bool" where
  "is_view_for env userID userIDs tid v =
     (case v of
        None \<Rightarrow> tid \<notin> ID ` set (fst (GetUsersByIds env userIDs))
      | Some ui \<Rightarrow> (\<exists>u \<in> set (fst (GetUsersByIds env userIDs)).
                     ID u = tid \<and> ui = user_view env userID userIDs u))"

text \<open>
  Test data: repositories that hold the users 2, 3 and 4, in which the requester follows
  2 and 3, is followed by 3, and only user 2 has a stat row.
\<close>

definition mk_user :: "uid \<Rightarrow> string \<Rightarrow> UserBaseModel" where
  "mk_user i n = \<lparr>ID = i, Username = n, Password = '''', Phone = 0, Email = ''''\<rparr>"

definition demo_users :: "UserBaseModel list" where
  "demo_users = [mk_user 2 ''bob'', mk_user 3 ''carol'', mk_user 4 ''dave'']"

definition demo_env :: env where
  "demo_env =
     \<lparr>GetUsersByIds = (\<lambda>ids. (filter (\<lambda>u. ID u \<in> set ids) demo_users, None)),
      GetUserByID = (\<lambda>i. (Some (mk_user i ''alice''), None)),
      GetFollowByUIds = (\<lambda>i ids.
        ([2 \<mapsto> \<lparr>FollowID = 1, FollowUserID = i, FollowedUID = 2, Status = 1\<rparr>,
          3 \<mapsto> \<lparr>FollowID = 2, FollowUserID = i, FollowedUID = 3, Status = 1\<rparr>], None)),
      GetFansByUIds = (\<lambda>i ids.
        ([3 \<mapsto> \<lparr>FansID = 1, FansUserID = i, FollowerUID = 3, FansStatus = 1\<rparr>], None)),
      GetUserStatByIDs = (\<lambda>ids. ([2 \<mapsto> \<lparr>FollowCount = 0, FollowerCount = 5\<rparr>], None))\<rparr>"

definition fifo :: schedule where
  "fifo = \<lparr>lock_order = [], select_finished = False\<rparr>"

definition bob_view :: UserInfo where
  "bob_view = \<lparr>info_User = mk_user 2 ''bob'', info_IsFollow = True, info_IsFans = False,
               info_Stat = Some \<lparr>FollowCount = 0, FollowerCount = 5\<rparr>\<rparr>"

definition carol_view :: UserInfo where
  "carol_view = \<lparr>info_User = mk_user 3 ''carol'', info_IsFollow = True, info_IsFans = True,
                 info_Stat = None\<rparr>"

definition dave_view :: UserInfo where
  "dave_view = \<lparr>info_User = mk_user 4 ''dave'', info_IsFollow = False, info_IsFans = False,
                info_Stat = None\<rparr>"

text \<open>
  The same repositories with a failing lookup: of the requester's record, of the follow
  relation, and of both the follow and the fan relation.
\<close>

definition requester_down_env :: env where
  "requester_down_env = demo_env\<lparr>GetUserByID := (\<lambda>i. (None, Some (RepoError ''user'')))\<rparr>"

definition follow_down_env :: env where
  "follow_down_env =
     demo_env\<lparr>GetFollowByUIds := (\<lambda>i ids. (Map.empty, Some (RepoError ''follow'')))\<rparr>"

definition follow_fans_down_env :: env where
  "follow_fans_down_env =
     demo_env\<lparr>GetFollowByUIds := (\<lambda>i ids. (Map.empty, Some (RepoError ''follow''))),
              GetFansByUIds := (\<lambda>i ids. (Map.empty, Some (RepoError ''fans'')))\<rparr>"

definition workers_first :: schedule where
  "workers_first = \<lparr>lock_order = [], select_finished = True\<rparr>"

section \<open>Phone login\<close>

text \<open>\<open>strconv.Itoa\<close>: the decimal digits of an integer, with a minus sign when negative.\<close>

fun digits :: "nat \<Rightarrow> string" where
  "digits n =
     (if n < 10 then [''0123456789'' ! n]
      else digits (n div 10) @ [''0123456789'' ! (n mod 10)])"

definition Itoa :: "int \<Rightarrow> string" where
  "Itoa i = (if i < 0 then CHR ''-'' # digits (nat (- i)) else digits (nat i))"

text \<open>
  \<open>gorm.IsRecordNotFoundError\<close> is the persistence library's: modelled as the test for
  its not-found error (false on nil).
\<close>

definition IsRecordNotFoundError :: "error option \<Rightarrow> bool" where
  "IsRecordNotFoundError err = (err = Some ErrRecordNotFound)"

text \<open>
  The user repository is not under src/: its two operations are parameters over a state
  \<open>'d\<close> of its own. \<open>Create\<close> returns the new ID, an error and the state after it.
\<close>

record 'd userRepo =
  repo_GetUserByPhone :: "'d \<Rightarrow> int \<Rightarrow> UserBaseModel option \<times> error option"
  repo_Create :: "'d \<Rightarrow> UserBaseModel \<Rightarrow> (uid \<times> error option) \<times> 'd"

record token_Context =
  UserID :: uid
  ctx_Username :: string

definition GetUserByPhone ::
  "'d userRepo \<Rightarrow> 'd \<Rightarrow> int \<Rightarrow> UserBaseModel option \<times> error option" where
  "GetUserByPhone repo d phone =
     (let (userModel, err) = repo_GetUserByPhone repo d phone in
      if err \<noteq> None \<or> IsRecordNotFoundError err
      then (userModel,
            errors_Wrap err (''get user info err from db by phone: '' @ Itoa phone))
      else (userModel, None))"

text \<open>
  \<open>PhoneLogin\<close>. \<open>token.Sign\<close> is a parameter. In the branch for an unseen phone the
  source declares a second variable \<open>u\<close> (here \<open>u_new\<close>) that lives to the end of the
  branch; the token is signed from the \<open>u\<close> of the lookup. Reading \<open>u.ID\<close> of a nil
  record panics.
\<close>

definition PhoneLogin ::
  "'d userRepo \<Rightarrow> (token_Context \<Rightarrow> string \<times> error option) \<Rightarrow> 'd \<Rightarrow> int \<Rightarrow> int \<Rightarrow>
   (string \<times> error option) outcome \<times> 'd" where
  "PhoneLogin repo token_Sign d phone verifyCode =
    (let (u_ptr, err) = GetUserByPhone repo d phone in
     if err \<noteq> None
     then (Returns ('''', errors_Wrap err ''[login] get u info err''), d)
     else
     (case u_ptr of
        None \<Rightarrow> (Panics, d)
      | Some u \<Rightarrow>
         let (created, d') =
               (if ID u = 0
                then
                  let u_new = \<lparr>ID = 0, Username = Itoa phone, Password = '''',
                               Phone = phone, Email = ''''\<rparr>;
                      ((newID, err), d') = repo_Create repo d u_new;
                      u_new = u_new\<lparr>ID := newID\<rparr>
                  in (err, d')
                else (None, d))
         in if created \<noteq> None
            then (Returns ('''', errors_Wrap created ''[login] create user err''), d')
            else
              let (tokenStr, err) = token_Sign \<lparr>UserID = ID u, ctx_Username = Username u\<rparr>
              in if err \<noteq> None
                 then (Returns ('''', errors_Wrap err ''[login] gen token sign err''), d')
                 else (Returns (tokenStr, None), d')))"

text \<open>
  Modelled from the spec: a user repository over a list of user records, for running the
  login. A lookup by phone gives the record, or the zero record when there is none;
  \<open>Create\<close> stores the record under the next free ID.
\<close>

definition zero_user :: UserBaseModel where
  "zero_user = \<lparr>ID = 0, Username = '''', Password = '''', Phone = 0, Email = ''''\<rparr>"

definition list_repo :: "UserBaseModel list userRepo" where
  "list_repo =
     \<lparr>repo_GetUserByPhone = (\<lambda>d phone.
        (case find (\<lambda>u. Phone u = phone) d of
           None \<Rightarrow> (Some zero_user, None)
         | Some u \<Rightarrow> (Some u, None))),
      repo_Create = (\<lambda>d u.
        ((word_of_nat (Suc (length d)), None),
         d @ [u\<lparr>ID := word_of_nat (Suc (length d))\<rparr>]))\<rparr>"

text \<open>
  Modelled from the spec: \<open>IssueToken(claims{userID, username})\<close> gives a string; here
  the claims written out, so that a token shows what it carries.
\<close>

definition claims_Sign :: "token_Context \<Rightarrow> string \<times> error option" where
  "claims_Sign c = (''uid='' @ Itoa (uint (UserID c)) @ '';name='' @ ctx_Username c, None)"

section \<open>Properties of follow and unfollow\<close>

lemmas step_defs = CreateUserFollow_def CreateUserFans_def UpdateUserFollowStatus_def
  UpdateUserFansStatus_def IncrFollowCount_def IncrFollowerCount_def Commit_def attempt_def
  Begin_def Rollback_def errors_Wrap_def

text \<open>
  A call either commits, and then the database holds exactly the four writes, or leaves
  the committed database as it was.
\<close>

lemma AddUserFollow_cases:
  "AddUserFollow fl d a b =
    (None, \<lparr>store = follow_effect d a b, pending = follow_effect d a b, status = Committed\<rparr>)
   \<or> store (snd (AddUserFollow fl d a b)) = d \<and> status (snd (AddUserFollow fl d a b)) \<noteq> Committed"
  apply (cases "fl StepFollow"; simp add: AddUserFollow_def step_defs)
  apply (cases "fl StepFans"; simp add: step_defs)
  apply (cases "fl StepFollowCount"; simp add: step_defs)
  apply (cases "fl StepFollowerCount"; simp add: step_defs)
  apply (cases "fl StepCommit"; simp add: step_defs follow_effect_def)
  done

lemma CancelUserFollow_cases:
  "CancelUserFollow fl d a b =
    (None, \<lparr>store = unfollow_effect d a b, pending = unfollow_effect d a b, status = Committed\<rparr>)
   \<or> store (snd (CancelUserFollow fl d a b)) = d \<and> status (snd (CancelUserFollow fl d a b)) \<noteq> Committed"
  apply (cases "fl StepFollow"; cases "follow_tbl d (a, b)";
         simp add: CancelUserFollow_def step_defs)
   apply (cases "fl StepFans"; cases "fans_tbl d (b, a)"; simp add: step_defs)
    apply (cases "fl StepFollowCount"; simp add: step_defs)
    apply (cases "fl StepFollowerCount"; simp add: step_defs)
    apply (cases "fl StepCommit"; simp add: step_defs unfollow_effect_def)
   apply (cases "fl StepFollowCount"; simp add: step_defs)
   apply (cases "fl StepFollowerCount"; simp add: step_defs)
   apply (cases "fl StepCommit"; simp add: step_defs unfollow_effect_def)
  apply (cases "fl StepFans"; cases "fans_tbl d (b, a)"; simp add: step_defs)
   apply (cases "fl StepFollowCount"; simp add: step_defs)
   apply (cases "fl StepFollowerCount"; simp add: step_defs)
   apply (cases "fl StepCommit"; simp add: step_defs unfollow_effect_def)
  apply (cases "fl StepFollowCount"; simp add: step_defs)
  apply (cases "fl StepFollowerCount"; simp add: step_defs)
  apply (cases "fl StepCommit"; simp add: step_defs unfollow_effect_def)
  done

lemma AddUserFollow_committed:
  assumes "AddUserFollow fl d a b = (r, t)" and "status t = Committed"
  shows "r = None \<and> store t = follow_effect d a b"
  using AddUserFollow_cases [of fl d a b] assms by auto

lemma CancelUserFollow_committed:
  assumes "CancelUserFollow fl d a b = (r, t)" and "status t = Committed"
  shows "r = None \<and> store t = unfollow_effect d a b"
  using CancelUserFollow_cases [of fl d a b] assms by auto

lemma AddUserFollow_no_fault:
  "AddUserFollow no_fault d a b =
     (None, \<lparr>store = follow_effect d a b, pending = follow_effect d a b, status = Committed\<rparr>)"
  by (simp add: AddUserFollow_def step_defs no_fault_def follow_effect_def)

lemma CancelUserFollow_no_fault:
  "CancelUserFollow no_fault d a b =
     (None, \<lparr>store = unfollow_effect d a b, pending = unfollow_effect d a b,
             status = Committed\<rparr>)"
  by (cases "follow_tbl d (a, b)"; cases "fans_tbl d (b, a)";
      simp add: CancelUserFollow_def step_defs no_fault_def unfollow_effect_def)

text \<open>
  C6. A follow that committed, then an unfollow of the same pair that committed, leave the
  follower's following count and the followee's follower count as they were before the
  follow. A call succeeds when it returns nil and its transaction is committed (a
  recovered panic also returns nil, after a rollback).
\<close>

theorem follow_then_unfollow_restores_counts:
  assumes "AddUserFollow f1 d a b = (None, t1)" and "status t1 = Committed"
    and "CancelUserFollow f2 (store t1) a b = (None, t2)" and "status t2 = Committed"
  shows "follow_count (store t2) a = follow_count d a \<and>
         follower_count (store t2) b = follower_count d b"
proof -
  have s1: "store t1 = follow_effect d a b"
    using AddUserFollow_committed [OF assms(1,2)] by simp
  have s2: "store t2 = unfollow_effect (store t1) a b"
    using CancelUserFollow_committed [OF assms(3,4)] by simp
  show ?thesis
    by (simp add: s1 s2 follow_effect_def unfollow_effect_def)
qed

text \<open>
  C6, at a concrete input: user 1 follows user 2 in the empty database, then unfollows.
\<close>

theorem follow_then_unfollow_restores_counts_witness:
  "AddUserFollow no_fault empty_db 1 2 =
     (None, \<lparr>store = follow_effect empty_db 1 2, pending = follow_effect empty_db 1 2,
             status = Committed\<rparr>) \<and>
   follow_count (follow_effect empty_db 1 2) 1 = 1 \<and>
   follower_count (follow_effect empty_db 1 2) 2 = 1 \<and>
   follow_count (store (snd (CancelUserFollow no_fault (follow_effect empty_db 1 2) 1 2))) 1 = 0 \<and>
   follower_count (store (snd (CancelUserFollow no_fault (follow_effect empty_db 1 2) 1 2))) 2 = 0"
proof -
  let ?d1 = "follow_effect empty_db 1 2"
  let ?t1 = "\<lparr>store = ?d1, pending = ?d1, status = Committed\<rparr>"
  let ?t2 = "\<lparr>store = unfollow_effect ?d1 1 2, pending = unfollow_effect ?d1 1 2,
              status = Committed\<rparr>"
  have a1: "AddUserFollow no_fault empty_db 1 2 = (None, ?t1)"
    by (rule AddUserFollow_no_fault)
  have a2: "status ?t1 = Committed" by simp
  have a3: "CancelUserFollow no_fault (store ?t1) 1 2 = (None, ?t2)"
    by (simp add: CancelUserFollow_no_fault)
  have a4: "status ?t2 = Committed" by simp
  have c: "follow_count ?d1 1 = 1 \<and> follower_count ?d1 2 = 1"
    by (simp add: follow_effect_def empty_db_def)
  have e: "follow_count empty_db 1 = 0 \<and> follower_count empty_db 2 = 0"
    by (simp add: empty_db_def)
  from follow_then_unfollow_restores_counts [OF a1 a2 a3 a4] a1 a3 c e
  show ?thesis by simp
qed

lemma exec_op_edge_agree:
  assumes "edge_agree d a b"
  shows "edge_agree (snd (exec_op fl c d)) a b"
proof (cases c)
  case (Follow x y)
  have "edge_agree (follow_effect d x y) a b"
    using assms by (auto simp: edge_agree_def follow_effect_def)
  with assms AddUserFollow_cases [of fl d x y] Follow show ?thesis
    by (auto simp: exec_op_def split: prod.splits)
next
  case (Unfollow x y)
  have "edge_agree (unfollow_effect d x y) a b"
    using assms
    by (cases "follow_tbl d (x, y)"; cases "fans_tbl d (y, x)")
       (auto simp: edge_agree_def unfollow_effect_def)
  with assms CancelUserFollow_cases [of fl d x y] Unfollow show ?thesis
    by (auto simp: exec_op_def split: prod.splits)
qed

text \<open>
  C8. In a sequence of follow and unfollow calls that all return nil, started where the
  follow edge of (a, b) and its fan projection agree, they agree after every call: both
  absent, both Normal or both Deleted.
\<close>

theorem edge_and_fan_agree_after_every_op:
  assumes "edge_agree d a b" and "\<forall>r\<in>set (run_ops cs d). fst r = None"
  shows "\<forall>r\<in>set (run_ops cs d). edge_agree (snd r) a b"
  using assms
proof (induction cs arbitrary: d)
  case Nil
  then show ?case by simp
next
  case (Cons x cs)
  obtain fl c where x: "x = (fl, c)" by (cases x)
  have ag: "edge_agree (snd (exec_op fl c d)) a b"
    using Cons.prems(1) by (rule exec_op_edge_agree)
  have "\<forall>r\<in>set (run_ops cs (snd (exec_op fl c d))). fst r = None"
    using Cons.prems(2) by (simp add: x Let_def)
  from Cons.IH[OF ag this] ag show ?case
    by (simp add: x Let_def)
qed

text \<open>
  C8, at a concrete input: 1 follows 2, 1 unfollows 2, 3 follows 1, from the empty
  database; the pair watched is (1, 2).
\<close>

theorem edge_and_fan_agree_after_every_op_witness:
  "edge_agree empty_db 1 2 \<and>
   map fst (run_ops [(no_fault, Follow 1 2), (no_fault, Unfollow 1 2), (no_fault, Follow 3 1)]
     empty_db) = [None, None, None] \<and>
   map (\<lambda>r. edge_agree (snd r) 1 2)
     (run_ops [(no_fault, Follow 1 2), (no_fault, Unfollow 1 2), (no_fault, Follow 3 1)]
       empty_db) = [True, True, True] \<and>
   map (\<lambda>r. (follow_tbl (snd r) (1, 2), fans_tbl (snd r) (2, 1)))
     (run_ops [(no_fault, Follow 1 2), (no_fault, Unfollow 1 2), (no_fault, Follow 3 1)] empty_db)
   = [(Some FollowStatusNormal, Some FollowStatusNormal),
      (Some FollowStatusDelete, Some FollowStatusDelete),
      (Some FollowStatusDelete, Some FollowStatusDelete)]"
proof -
  let ?cs = "[(no_fault, Follow 1 2), (no_fault, Unfollow 1 2), (no_fault, Follow 3 1)]"
  have h1: "edge_agree empty_db 1 2"
    by (simp add: edge_agree_def empty_db_def)
  have h2: "map fst (run_ops ?cs empty_db) = [None, None, None]"
    by (simp add: exec_op_def AddUserFollow_no_fault CancelUserFollow_no_fault)
  have h2': "\<forall>r\<in>set (run_ops ?cs empty_db). fst r = None"
    by (simp add: exec_op_def AddUserFollow_no_fault CancelUserFollow_no_fault)
  have h3: "map (\<lambda>r. (follow_tbl (snd r) (1, 2), fans_tbl (snd r) (2, 1))) (run_ops ?cs empty_db)
     = [(Some FollowStatusNormal, Some FollowStatusNormal),
        (Some FollowStatusDelete, Some FollowStatusDelete),
        (Some FollowStatusDelete, Some FollowStatusDelete)]"
    by (simp add: exec_op_def AddUserFollow_no_fault CancelUserFollow_no_fault
        follow_effect_def unfollow_effect_def empty_db_def)
  have len: "length (run_ops ?cs empty_db) = 3"
    by (simp add: Let_def)
  from edge_and_fan_agree_after_every_op [OF h1 h2']
  have "\<forall>r\<in>set (run_ops ?cs empty_db). edge_agree (snd r) 1 2" .
  then have "map (\<lambda>r. edge_agree (snd r) 1 2) (run_ops ?cs empty_db) =
             map (\<lambda>r. True) (run_ops ?cs empty_db)"
    by (intro map_cong) simp_all
  also have "\<dots> = replicate (length (run_ops ?cs empty_db)) True"
    by (simp add: map_replicate_const)
  also have "\<dots> = [True, True, True]"
    by (simp only: len) (simp add: numeral_3_eq_3)
  finally have h4: "map (\<lambda>r. edge_agree (snd r) 1 2) (run_ops ?cs empty_db) = [True, True, True]" .
  from h1 h2 h3 h4 show ?thesis by simp
qed

text \<open>
  C1. The claim is that an error of any of the four steps makes the call return an error
  with every earlier step reverted. When the fourth step (the followee's follower count)
  of \<open>AddUserFollow\<close> fails, the call returns the error with the transaction still
  active and the first three writes pending in it: no rollback is issued.
  \<open>CancelUserFollow\<close> rolls back at the same step.
\<close>

theorem AddUserFollow_follower_count_error_leaves_tx_open:
  "AddUserFollow (fault_at StepFollowerCount (RepoError ''db down'')) empty_db 1 2 =
     (Some (Wrapped (RepoError ''db down'') ''update user fans count err''),
      \<lparr>store = empty_db,
       pending = empty_db\<lparr>follow_tbl := [(1, 2) \<mapsto> FollowStatusNormal],
                          fans_tbl := [(2, 1) \<mapsto> FollowStatusNormal],
                          follow_count := (\<lambda>_. 0)(1 := 1)\<rparr>,
       status = Active\<rparr>) \<and>
   CancelUserFollow (fault_at StepFollowerCount (RepoError ''db down'')) empty_db 1 2 =
     (Some (Wrapped (RepoError ''db down'') ''update user fans count err''),
      \<lparr>store = empty_db, pending = empty_db, status = RolledBack\<rparr>)"
  by (simp add: AddUserFollow_def CancelUserFollow_def step_defs fault_at_def empty_db_def)

text \<open>
  Every other error branch does roll back: \<open>CancelUserFollow\<close> that returns an error
  leaves the transaction rolled back and the database as it was, and so does
  \<open>AddUserFollow\<close>, unless the error is that of its fourth step.
\<close>

lemma CancelUserFollow_error_rolls_back:
  "fst (CancelUserFollow fl d a b) = None \<or>
   snd (CancelUserFollow fl d a b) = \<lparr>store = d, pending = d, status = RolledBack\<rparr>"
  apply (cases "fl StepFollow"; cases "follow_tbl d (a, b)";
         simp add: CancelUserFollow_def step_defs)
   apply (cases "fl StepFans"; cases "fans_tbl d (b, a)"; simp add: step_defs)
    apply (cases "fl StepFollowCount"; simp add: step_defs)
    apply (cases "fl StepFollowerCount"; simp add: step_defs)
    apply (cases "fl StepCommit"; simp add: step_defs)
   apply (cases "fl StepFollowCount"; simp add: step_defs)
   apply (cases "fl StepFollowerCount"; simp add: step_defs)
   apply (cases "fl StepCommit"; simp add: step_defs)
  apply (cases "fl StepFans"; cases "fans_tbl d (b, a)"; simp add: step_defs)
   apply (cases "fl StepFollowCount"; simp add: step_defs)
   apply (cases "fl StepFollowerCount"; simp add: step_defs)
   apply (cases "fl StepCommit"; simp add: step_defs)
  apply (cases "fl StepFollowCount"; simp add: step_defs)
  apply (cases "fl StepFollowerCount"; simp add: step_defs)
  apply (cases "fl StepCommit"; simp add: step_defs)
  done

lemma AddUserFollow_error_rolls_back_but_one:
  "fst (AddUserFollow fl d a b) = None \<or>
   snd (AddUserFollow fl d a b) = \<lparr>store = d, pending = d, status = RolledBack\<rparr> \<or>
   (fl StepFollow = NoFault \<and> fl StepFans = NoFault \<and> fl StepFollowCount = NoFault \<and>
    (\<exists>x. fl StepFollowerCount = Fail x) \<and> status (snd (AddUserFollow fl d a b)) = Active)"
  apply (cases "fl StepFollow"; simp add: AddUserFollow_def step_defs)
  apply (cases "fl StepFans"; simp add: step_defs)
  apply (cases "fl StepFollowCount"; simp add: step_defs)
  apply (cases "fl StepFollowerCount"; simp add: step_defs)
  apply (cases "fl StepCommit"; simp add: step_defs)
  done

section \<open>Properties of the batch aggregation\<close>

text \<open>
  Any lock order runs every worker once.
\<close>

lemma interleave_set: "set (interleave ps rs) = set rs"
proof (induction ps rs rule: interleave.induct)
  case (3 p ps r rs)
  let ?xs = "r # rs"
  let ?k = "p mod length ?xs"
  have k: "?k < length ?xs" by simp
  have "?xs = take ?k ?xs @ ?xs ! ?k # drop (Suc ?k) ?xs"
    using k by (rule id_take_nth_drop)
  then have "set ?xs = insert (?xs ! ?k) (set (take ?k ?xs @ drop (Suc ?k) ?xs))"
    by (metis Un_insert_right list.simps(15) set_append)
  moreover have "set (interleave (p # ps) ?xs) =
      insert (?xs ! ?k) (set (take ?k ?xs @ drop (Suc ?k) ?xs))"
    using 3 by (simp add: Let_def del: set_append)
  ultimately show ?case by simp
qed simp_all

text \<open>The map the workers build when no worker has an error to send.\<close>

lemma put_views:
  fixes v :: "UserBaseModel \<Rightarrow> UserInfo"
  shows "(tid \<notin> ID ` set us \<longrightarrow> foldl (\<lambda>m u. m(ID u \<mapsto> v u)) m0 us tid = m0 tid) \<and>
         (tid \<in> ID ` set us \<longrightarrow>
            (\<exists>u\<in>set us. ID u = tid \<and> foldl (\<lambda>m u. m(ID u \<mapsto> v u)) m0 us tid = Some (v u)))"
proof (induction us rule: rev_induct)
  case Nil
  then show ?case by simp
next
  case (snoc x xs)
  show ?case
  proof (cases "ID x = tid")
    case True
    then show ?thesis by auto
  next
    case False
    with snoc show ?thesis by auto
  qed
qed

lemma workers_no_error:
  assumes "\<not> stuck w"
  shows "foldl (worker c fm fam sm None) w us =
         w\<lparr>IDMap := foldl (\<lambda>m u. m(ID u \<mapsto> view_in c fm fam sm u)) (IDMap w) us\<rparr>"
  using assms
proof (induction us arbitrary: w)
  case Nil
  then show ?case by simp
next
  case (Cons u us)
  let ?w' = "worker c fm fam sm None w u"
  have w': "?w' = w\<lparr>IDMap := (IDMap w)(ID u \<mapsto> view_in c fm fam sm u)\<rparr>"
    using Cons.prems by (simp add: worker_def view_in_def Let_def)
  then have "\<not> stuck ?w'" using Cons.prems by simp
  from Cons.IH [OF this] w' show ?case by simp
qed

lemma workers_stuck:
  assumes "stuck w"
  shows "foldl (worker c fm fam sm err) w us = w"
  using assms by (induction us) (simp_all add: worker_def)

lemma workers_error:
  assumes "errChan w = Some x" and "\<not> stuck w"
  shows "foldl (worker c fm fam sm (Some e)) w us = (if us = [] then w else w\<lparr>stuck := True\<rparr>)"
proof (cases us)
  case Nil
  then show ?thesis by simp
next
  case (Cons u us')
  have "worker c fm fam sm (Some e) w u = w\<lparr>stuck := True\<rparr>"
    using assms by (simp add: worker_def Let_def)
  then show ?thesis
    using Cons by (simp add: workers_stuck)
qed

lemma send_if_err_Some:
  assumes "send_if_err ch (Some e) = Some ch'"
  shows "ch' = Some e"
  using assms by (simp add: send_if_err_def split: option.splits)

lemma select_and_merge_success:
  assumes "select_and_merge s w ids = Returns (Some out, None)"
  shows "\<not> stuck w \<and> out = map (IDMap w) ids"
  using assms by (auto simp: select_and_merge_def split: option.splits if_splits)

lemma workers_no_error_result:
  "foldl (worker c fm fam sm None) \<lparr>errChan = ch, IDMap = Map.empty, stuck = False\<rparr> us =
   \<lparr>errChan = ch, IDMap = foldl (\<lambda>m u. m(ID u \<mapsto> view_in c fm fam sm u)) Map.empty us,
    stuck = False\<rparr>"
  by (subst workers_no_error) simp_all

lemma idmap_views_no_error:
  "is_view_for env userID userIDs tid
     (IDMap (foldl (worker (fst (GetUserByID env userID))
                (fst (GetFollowByUIds env userID userIDs))
                (fst (GetFansByUIds env userID userIDs))
                (fst (GetUserStatByIDs env userIDs)) None)
          \<lparr>errChan = ch, IDMap = Map.empty, stuck = False\<rparr>
          (interleave ps (fst (GetUsersByIds env userIDs)))) tid)"
proof -
  let ?v = "view_in (fst (GetUserByID env userID))
                (fst (GetFollowByUIds env userID userIDs))
                (fst (GetFansByUIds env userID userIDs))
                (fst (GetUserStatByIDs env userIDs))"
  let ?users = "fst (GetUsersByIds env userIDs)"
  let ?us = "interleave ps ?users"
  let ?m = "foldl (\<lambda>m u. m(ID u \<mapsto> ?v u)) Map.empty ?us"
  have uv: "user_view env userID userIDs = ?v"
    by (rule ext) (simp add: user_view_def)
  have "is_view_for env userID userIDs tid (?m tid)"
  proof (cases "tid \<in> ID ` set ?users")
    case True
    then have "tid \<in> ID ` set ?us" by (simp add: interleave_set)
    with put_views [of tid ?us ?v Map.empty]
    obtain u where "u \<in> set ?us" and "ID u = tid" and "?m tid = Some (?v u)"
      by blast
    then show ?thesis
      by (auto simp add: is_view_for_def uv interleave_set)
  next
    case False
    then have "tid \<notin> ID ` set ?us" by (simp add: interleave_set)
    with put_views [of tid ?us ?v Map.empty]
    have "?m tid = None" by blast
    with False show ?thesis
      by (simp add: is_view_for_def)
  qed
  then show ?thesis
    by (simp only: workers_no_error_result wstate.simps)
qed

lemma workers_error_result:
  assumes "\<not> stuck (foldl (worker c fm fam sm (Some e))
                        \<lparr>errChan = Some x, IDMap = Map.empty, stuck = False\<rparr> us)"
  shows "us = []"
proof (rule ccontr)
  assume "us \<noteq> []"
  then have "foldl (worker c fm fam sm (Some e))
               \<lparr>errChan = Some x, IDMap = Map.empty, stuck = False\<rparr> us =
             \<lparr>errChan = Some x, IDMap = Map.empty, stuck = True\<rparr>"
    by (subst workers_error [where x = x]) simp_all
  with assms show False by simp
qed

text \<open>
  The call, with the results of the lookups named by their projections.
\<close>

lemma BatchGetUsers_steps:
  "BatchGetUsers env s userID userIDs =
    (if snd (GetUsersByIds env userIDs) \<noteq> None
     then Returns (None, errors_Wrap (snd (GetUsersByIds env userIDs))
                           ''[user_service] batch get user err'')
     else if snd (GetUserByID env userID) \<noteq> None
     then Returns (None, errors_Wrap (snd (GetUserByID env userID))
                           ''[user_service] get one user err'')
     else (case send_if_err None (snd (GetFollowByUIds env userID userIDs)) of
             None \<Rightarrow> Blocks
           | Some ch1 \<Rightarrow>
          (case send_if_err ch1 (snd (GetFansByUIds env userID userIDs)) of
             None \<Rightarrow> Blocks
           | Some ch2 \<Rightarrow>
          (case send_if_err ch2 (snd (GetUserStatByIDs env userIDs)) of
             None \<Rightarrow> Blocks
           | Some ch3 \<Rightarrow>
             select_and_merge s
               (foldl (worker (fst (GetUserByID env userID))
                         (fst (GetFollowByUIds env userID userIDs))
                         (fst (GetFansByUIds env userID userIDs))
                         (fst (GetUserStatByIDs env userIDs))
                         (snd (GetUserStatByIDs env userIDs)))
                  \<lparr>errChan = ch3, IDMap = Map.empty, stuck = False\<rparr>
                  (interleave (lock_order s) (fst (GetUsersByIds env userIDs)))) userIDs))))"
  by (simp add: BatchGetUsers_def Let_def case_prod_beta cong: option.case_cong)

text \<open>
  A call that returns a list and a nil error returns, for every target ID in order, the
  entry of the workers' map, and every entry of that map is the entry for its ID.
\<close>

lemma BatchGetUsers_success:
  assumes ok: "BatchGetUsers env s userID userIDs = Returns (Some out, None)"
  shows "\<exists>m. out = map m userIDs \<and> (\<forall>tid. is_view_for env userID userIDs tid (m tid))"
proof -
  let ?e1 = "snd (GetUsersByIds env userIDs)"
  let ?e2 = "snd (GetUserByID env userID)"
  let ?e3 = "snd (GetFollowByUIds env userID userIDs)"
  let ?e4 = "snd (GetFansByUIds env userID userIDs)"
  let ?e5 = "snd (GetUserStatByIDs env userIDs)"
  let ?users = "fst (GetUsersByIds env userIDs)"
  let ?W = "worker (fst (GetUserByID env userID)) (fst (GetFollowByUIds env userID userIDs))
              (fst (GetFansByUIds env userID userIDs)) (fst (GetUserStatByIDs env userIDs))"
  note unf = BatchGetUsers_steps [of env s userID userIDs]
  have n1: "?e1 = None"
  proof (cases ?e1)
    case (Some e)
    with ok unf show ?thesis by (simp add: errors_Wrap_def)
  qed simp
  have n2: "?e2 = None"
  proof (cases ?e2)
    case (Some e)
    with ok unf n1 show ?thesis by (simp add: errors_Wrap_def)
  qed simp
  obtain ch1 where s1: "send_if_err None ?e3 = Some ch1"
    using ok unf n1 n2 by (cases "send_if_err None ?e3") simp_all
  obtain ch2 where s2: "send_if_err ch1 ?e4 = Some ch2"
    using ok unf n1 n2 s1 by (cases "send_if_err ch1 ?e4") simp_all
  obtain ch3 where s3: "send_if_err ch2 ?e5 = Some ch3"
    using ok unf n1 n2 s1 s2 by (cases "send_if_err ch2 ?e5") simp_all
  let ?w = "foldl (?W ?e5) \<lparr>errChan = ch3, IDMap = Map.empty, stuck = False\<rparr>
              (interleave (lock_order s) ?users)"
  have sel: "select_and_merge s ?w userIDs = Returns (Some out, None)"
    using ok unf n1 n2 s1 s2 s3 by simp
  from select_and_merge_success [OF sel]
  have ns: "\<not> stuck ?w" and out: "out = map (IDMap ?w) userIDs" by simp_all
  have "\<forall>tid. is_view_for env userID userIDs tid (IDMap ?w tid)"
  proof (cases ?e5)
    case None
    show ?thesis
      unfolding None by (intro allI idmap_views_no_error)
  next
    case (Some e)
    from s3 have ch3: "ch3 = Some e"
      unfolding Some by (rule send_if_err_Some)
    from ns have "interleave (lock_order s) ?users = []"
      unfolding Some ch3 by (rule workers_error_result)
    then have emp: "?users = []"
      using interleave_set [of "lock_order s" ?users] by simp
    then show ?thesis
      by (simp add: is_view_for_def)
  qed
  with out show ?thesis by blast
qed

lemmas run_defs = BatchGetUsers_steps send_if_err_def worker_def select_and_merge_def
  TransferUser_def errors_Wrap_def Let_def

lemma demo_run:
  "BatchGetUsers demo_env fifo 1 [2, 3, 4, 2, 5] =
     Returns (Some [Some bob_view, Some carol_view, Some dave_view, Some bob_view, None], None)"
  by (simp add: run_defs demo_env_def demo_users_def mk_user_def fifo_def
        bob_view_def carol_view_def dave_view_def)

text \<open>
  C3. A call that returns a list and a nil error returns one entry per target ID, in the
  order of the target IDs, duplicates and the empty list included; the entry at
  position i is the entry for the i-th target ID: the view of a returned record with that
  ID, or nil when no record with that ID was returned.
\<close>

theorem BatchGetUsers_keeps_order:
  assumes "BatchGetUsers env s userID targetIDs = Returns (Some out, None)"
  shows "length out = length targetIDs \<and>
         (\<forall>i<length targetIDs. is_view_for env userID targetIDs (targetIDs ! i) (out ! i))"
proof -
  from BatchGetUsers_success [OF assms] obtain m where
    out: "out = map m targetIDs" and m: "\<forall>tid. is_view_for env userID targetIDs tid (m tid)"
    by blast
  show ?thesis
    using m by (simp add: out)
qed

text \<open>
  C3, at a concrete input: targets 2, 3, 4, 2 (a duplicate) and 5 (no such user).
\<close>

theorem BatchGetUsers_keeps_order_witness:
  "BatchGetUsers demo_env fifo 1 [2, 3, 4, 2, 5] =
     Returns (Some [Some bob_view, Some carol_view, Some dave_view, Some bob_view, None], None) \<and>
   length [Some bob_view, Some carol_view, Some dave_view, Some bob_view, None] =
     length [2, 3, 4, 2, 5 :: uid] \<and>
   is_view_for demo_env 1 [2, 3, 4, 2, 5] 2 (Some bob_view) \<and>
   is_view_for demo_env 1 [2, 3, 4, 2, 5] 3 (Some carol_view) \<and>
   is_view_for demo_env 1 [2, 3, 4, 2, 5] 4 (Some dave_view) \<and>
   is_view_for demo_env 1 [2, 3, 4, 2, 5] 5 None"
proof -
  let ?ids = "[2, 3, 4, 2, 5 :: uid]"
  let ?out = "[Some bob_view, Some carol_view, Some dave_view, Some bob_view, None]"
  from BatchGetUsers_keeps_order [OF demo_run]
  have a: "\<forall>i<length ?ids. is_view_for demo_env 1 ?ids (?ids ! i) (?out ! i)"
    by blast
  have "is_view_for demo_env 1 ?ids 2 (Some bob_view)"
    using a [rule_format, of 0] by simp
  moreover have "is_view_for demo_env 1 ?ids 3 (Some carol_view)"
    using a [rule_format, of 1] by simp
  moreover have "is_view_for demo_env 1 ?ids 4 (Some dave_view)"
    using a [rule_format, of 2] by simp
  moreover have "is_view_for demo_env 1 ?ids 5 None"
    using a [rule_format, of 4] by simp
  ultimately show ?thesis
    using demo_run by simp
qed

text \<open>
  C5. In a successful call, the view at position i is made by \<open>TransferUser\<close> from an
  input for the i-th target whose \<open>IsFollow\<close> is 1 exactly when the target's ID is a key
  of the map that \<open>GetFollowByUIds\<close> returned, and whose \<open>IsFans\<close> is 1 exactly when
  the ID is a key of the map that \<open>GetFansByUIds\<close> returned (0 otherwise); so the view's
  follow flag and fan flag are set exactly in these cases.
\<close>

theorem BatchGetUsers_flags:
  assumes "BatchGetUsers env s userID targetIDs = Returns (Some out, None)"
    and "i < length targetIDs" and "out ! i = Some ui"
  shows "(\<exists>inp. ui = TransferUser inp \<and> ID (User inp) = targetIDs ! i \<and>
            IsFollow inp =
              (if targetIDs ! i \<in> dom (fst (GetFollowByUIds env userID targetIDs)) then 1 else 0) \<and>
            IsFans inp =
              (if targetIDs ! i \<in> dom (fst (GetFansByUIds env userID targetIDs)) then 1 else 0)) \<and>
         ID (info_User ui) = targetIDs ! i \<and>
         (info_IsFollow ui \<longleftrightarrow> targetIDs ! i \<in> dom (fst (GetFollowByUIds env userID targetIDs))) \<and>
         (info_IsFans ui \<longleftrightarrow> targetIDs ! i \<in> dom (fst (GetFansByUIds env userID targetIDs)))"
proof -
  from BatchGetUsers_success [OF assms(1)] obtain m where
    out: "out = map m targetIDs" and m: "\<forall>tid. is_view_for env userID targetIDs tid (m tid)"
    by blast
  from out assms(2,3) have "m (targetIDs ! i) = Some ui" by simp
  with m have "is_view_for env userID targetIDs (targetIDs ! i) (Some ui)"
    by metis
  then obtain u where u: "ID u = targetIDs ! i" and ui: "ui = user_view env userID targetIDs u"
    by (auto simp: is_view_for_def)
  let ?inp = "\<lparr>CurUser = fst (GetUserByID env userID), User = u,
      UserStat = fst (GetUserStatByIDs env targetIDs) (ID u),
      IsFollow = (if fst (GetFollowByUIds env userID targetIDs) (ID u) \<noteq> None then 1 else 0),
      IsFans = (if fst (GetFansByUIds env userID targetIDs) (ID u) \<noteq> None then 1 else 0)\<rparr>"
  have "ui = TransferUser ?inp"
    by (simp add: ui user_view_def view_in_def)
  moreover have "ID (User ?inp) = targetIDs ! i"
    by (simp add: u)
  moreover have "IsFollow ?inp =
      (if targetIDs ! i \<in> dom (fst (GetFollowByUIds env userID targetIDs)) then 1 else 0)"
    by (simp add: u dom_def)
  moreover have "IsFans ?inp =
      (if targetIDs ! i \<in> dom (fst (GetFansByUIds env userID targetIDs)) then 1 else 0)"
    by (simp add: u dom_def)
  ultimately have first: "\<exists>inp. ui = TransferUser inp \<and> ID (User inp) = targetIDs ! i \<and>
            IsFollow inp =
              (if targetIDs ! i \<in> dom (fst (GetFollowByUIds env userID targetIDs)) then 1 else 0) \<and>
            IsFans inp =
              (if targetIDs ! i \<in> dom (fst (GetFansByUIds env userID targetIDs)) then 1 else 0)"
    by blast
  have "ID (info_User ui) = targetIDs ! i \<and>
         (info_IsFollow ui \<longleftrightarrow> targetIDs ! i \<in> dom (fst (GetFollowByUIds env userID targetIDs))) \<and>
         (info_IsFans ui \<longleftrightarrow> targetIDs ! i \<in> dom (fst (GetFansByUIds env userID targetIDs)))"
    using u by (auto simp: ui user_view_def view_in_def TransferUser_def)
  with first show ?thesis by blast
qed

text \<open>
  C5, at a concrete input: the requester follows 2 and 3 and is followed by 3; the view
  of 3 has both flags set.
\<close>

theorem BatchGetUsers_flags_witness:
  "BatchGetUsers demo_env fifo 1 [2, 3, 4, 2, 5] =
     Returns (Some [Some bob_view, Some carol_view, Some dave_view, Some bob_view, None], None) \<and>
   dom (fst (GetFollowByUIds demo_env 1 [2, 3, 4, 2, 5])) = {2, 3} \<and>
   dom (fst (GetFansByUIds demo_env 1 [2, 3, 4, 2, 5])) = {3} \<and>
   ID (info_User carol_view) = 3 \<and>
   info_IsFollow carol_view = (3 \<in> dom (fst (GetFollowByUIds demo_env 1 [2, 3, 4, 2, 5]))) \<and>
   info_IsFans carol_view = (3 \<in> dom (fst (GetFansByUIds demo_env 1 [2, 3, 4, 2, 5]))) \<and>
   info_IsFollow carol_view \<and> info_IsFans carol_view"
proof -
  let ?ids = "[2, 3, 4, 2, 5 :: uid]"
  let ?out = "[Some bob_view, Some carol_view, Some dave_view, Some bob_view, None]"
  have i: "(1::nat) < length ?ids" by simp
  have o: "?out ! 1 = Some carol_view" by simp
  have d: "dom (fst (GetFollowByUIds demo_env 1 ?ids)) = {2, 3} \<and>
           dom (fst (GetFansByUIds demo_env 1 ?ids)) = {3}"
    by (auto simp: demo_env_def split: if_splits)
  have c: "info_IsFollow carol_view \<and> info_IsFans carol_view"
    by (simp add: carol_view_def)
  from BatchGetUsers_flags [OF demo_run i o] demo_run d c show ?thesis
    by simp
qed

text \<open>
  C10. In a successful call, a target ID with no returned record keeps a nil entry at its
  position: the output is as long as the input, and every target with a returned record
  has its view at its own position.
\<close>

theorem BatchGetUsers_keeps_nil_entries:
  assumes "BatchGetUsers env s userID targetIDs = Returns (Some out, None)"
    and "i < length targetIDs"
    and "targetIDs ! i \<notin> ID ` set (fst (GetUsersByIds env targetIDs))"
  shows "length out = length targetIDs \<and> out ! i = None \<and>
         (\<forall>j<length targetIDs.
            targetIDs ! j \<in> ID ` set (fst (GetUsersByIds env targetIDs)) \<longrightarrow>
            (\<exists>u\<in>set (fst (GetUsersByIds env targetIDs)).
               ID u = targetIDs ! j \<and> out ! j = Some (user_view env userID targetIDs u)))"
proof -
  from BatchGetUsers_success [OF assms(1)] obtain m where
    out: "out = map m targetIDs" and m: "\<forall>tid. is_view_for env userID targetIDs tid (m tid)"
    by blast
  have len: "length out = length targetIDs" by (simp add: out)
  have "is_view_for env userID targetIDs (targetIDs ! i) (m (targetIDs ! i))"
    using m by blast
  with assms(3) have "m (targetIDs ! i) = None"
    by (cases "m (targetIDs ! i)") (auto simp: is_view_for_def image_iff)
  then have nil: "out ! i = None"
    using assms(2) by (simp add: out)
  have "\<exists>u\<in>set (fst (GetUsersByIds env targetIDs)).
          ID u = targetIDs ! j \<and> out ! j = Some (user_view env userID targetIDs u)"
    if j: "j < length targetIDs"
      and ex: "targetIDs ! j \<in> ID ` set (fst (GetUsersByIds env targetIDs))" for j
  proof -
    have "is_view_for env userID targetIDs (targetIDs ! j) (m (targetIDs ! j))"
      using m by blast
    with ex show ?thesis
      using j by (cases "m (targetIDs ! j)") (auto simp: is_view_for_def out image_iff)
  qed
  with len nil show ?thesis by blast
qed

text \<open>
  C10, at a concrete input: target 5 has no record and comes first; 2 and 3 follow it.
\<close>

theorem BatchGetUsers_keeps_nil_entries_witness:
  "BatchGetUsers demo_env fifo 1 [5, 2, 3] =
     Returns (Some [None, Some bob_view, Some carol_view], None) \<and>
   ID ` set (fst (GetUsersByIds demo_env [5, 2, 3])) = {2, 3} \<and>
   length [None, Some bob_view, Some carol_view] = length [5, 2, 3 :: uid] \<and>
   [None, Some bob_view, Some carol_view] ! 0 = None"
proof -
  let ?ids = "[5, 2, 3 :: uid]"
  have run: "BatchGetUsers demo_env fifo 1 ?ids =
      Returns (Some [None, Some bob_view, Some carol_view], None)"
    by (simp add: run_defs demo_env_def demo_users_def mk_user_def fifo_def
        bob_view_def carol_view_def)
  have us: "ID ` set (fst (GetUsersByIds demo_env ?ids)) = {2, 3}"
    by (simp add: demo_env_def demo_users_def mk_user_def)
  have i: "(0::nat) < length ?ids" by simp
  have missing: "?ids ! 0 \<notin> ID ` set (fst (GetUsersByIds demo_env ?ids))"
    by (simp add: us)
  from BatchGetUsers_keeps_nil_entries [OF run i missing] run us show ?thesis
    by simp
qed

text \<open>
  C9. \<open>GetUserInfoByID\<close> is the batch call on the one-element list of the ID itself:
  when the batch call succeeds its list has exactly one entry, which is the result; when
  it returns an error, the result is nil and that error.
\<close>

theorem GetUserInfoByID_is_single_batch:
  "(\<forall>out. BatchGetUsers env s userID [userID] = Returns (Some out, None) \<longrightarrow>
      (\<exists>x. out = [x] \<and> GetUserInfoByID env s userID = Returns (x, None))) \<and>
   (\<forall>r e. BatchGetUsers env s userID [userID] = Returns (r, Some e) \<longrightarrow>
      GetUserInfoByID env s userID = Returns (None, Some e))"
proof (intro conjI allI impI)
  fix out
  assume ok: "BatchGetUsers env s userID [userID] = Returns (Some out, None)"
  from BatchGetUsers_success [OF ok] obtain m where "out = map m [userID]"
    by blast
  then have out: "out = [m userID]" by simp
  then have "GetUserInfoByID env s userID = Returns (m userID, None)"
    using ok by (simp add: GetUserInfoByID_def)
  with out show "\<exists>x. out = [x] \<and> GetUserInfoByID env s userID = Returns (x, None)"
    by blast
next
  fix r e
  assume "BatchGetUsers env s userID [userID] = Returns (r, Some e)"
  then show "GetUserInfoByID env s userID = Returns (None, Some e)"
    by (simp add: GetUserInfoByID_def)
qed

text \<open>
  C9, at two concrete inputs: a call that succeeds, and a call in which the lookup of
  the requester fails.
\<close>

theorem GetUserInfoByID_is_single_batch_witness:
  "BatchGetUsers demo_env fifo 2 [2] = Returns (Some [Some bob_view], None) \<and>
   GetUserInfoByID demo_env fifo 2 = Returns (Some bob_view, None) \<and>
   BatchGetUsers requester_down_env fifo 2 [2] =
     Returns (None, Some (Wrapped (RepoError ''user'') ''[user_service] get one user err'')) \<and>
   GetUserInfoByID requester_down_env fifo 2 =
     Returns (None, Some (Wrapped (RepoError ''user'') ''[user_service] get one user err''))"
proof -
  have ok: "BatchGetUsers demo_env fifo 2 [2] = Returns (Some [Some bob_view], None)"
    by (simp add: run_defs demo_env_def demo_users_def mk_user_def fifo_def bob_view_def)
  have bad: "BatchGetUsers requester_down_env fifo 2 [2] =
     Returns (None, Some (Wrapped (RepoError ''user'') ''[user_service] get one user err''))"
    by (simp add: run_defs requester_down_env_def demo_env_def)
  from GetUserInfoByID_is_single_batch [of demo_env fifo 2] ok
  have "GetUserInfoByID demo_env fifo 2 = Returns (Some bob_view, None)"
    by auto
  moreover from GetUserInfoByID_is_single_batch [of requester_down_env fifo 2] bad
  have "GetUserInfoByID requester_down_env fifo 2 =
     Returns (None, Some (Wrapped (RepoError ''user'') ''[user_service] get one user err''))"
    by blast
  ultimately show ?thesis using ok bad by simp
qed

text \<open>
  What the call does with the error of a lookup. The first two lookups return it, wrapped.
  Two failing lookups among the last three block the call. One failing lookup among the
  last three is returned when the \<open>select\<close> takes the channel.
\<close>

lemma BatchGetUsers_users_lookup_error:
  assumes "snd (GetUsersByIds env userIDs) = Some e"
  shows "BatchGetUsers env s userID userIDs =
           Returns (None, Some (Wrapped e ''[user_service] batch get user err''))"
  using assms by (simp add: BatchGetUsers_steps errors_Wrap_def)

lemma BatchGetUsers_requester_lookup_error:
  assumes "snd (GetUsersByIds env userIDs) = None" and "snd (GetUserByID env userID) = Some e"
  shows "BatchGetUsers env s userID userIDs =
           Returns (None, Some (Wrapped e ''[user_service] get one user err''))"
  using assms by (simp add: BatchGetUsers_steps errors_Wrap_def)

lemma BatchGetUsers_two_relation_errors_block:
  assumes "snd (GetUsersByIds env userIDs) = None" and "snd (GetUserByID env userID) = None"
    and "snd (GetFollowByUIds env userID userIDs) = Some e3"
    and "snd (GetFansByUIds env userID userIDs) = Some e4"
  shows "BatchGetUsers env s userID userIDs = Blocks"
  using assms by (simp add: BatchGetUsers_steps send_if_err_def)

lemma workers_keep_full_channel:
  "errChan (foldl (worker c fm fam sm err) w us) = Some e" if "errChan w = Some e"
  using that
proof (induction us arbitrary: w)
  case Nil
  then show ?case by simp
next
  case (Cons u us)
  have "errChan (worker c fm fam sm err w u) = Some e"
    using Cons.prems by (cases err) (simp_all add: worker_def Let_def)
  then show ?case
    using Cons.IH by simp
qed

lemma BatchGetUsers_one_relation_error:
  assumes "snd (GetUsersByIds env userIDs) = None" and "snd (GetUserByID env userID) = None"
    and "send_if_err None (snd (GetFollowByUIds env userID userIDs)) = Some ch1"
    and "send_if_err ch1 (snd (GetFansByUIds env userID userIDs)) = Some ch2"
    and "send_if_err ch2 (snd (GetUserStatByIDs env userIDs)) = Some (Some e)"
    and "\<not> select_finished s"
  shows "BatchGetUsers env s userID userIDs = Returns (None, Some e)"
  using assms
  by (simp add: BatchGetUsers_steps select_and_merge_def workers_keep_full_channel)

text \<open>
  C2. The claim is that an error of any lookup makes the call return that error and no
  list. Errors of the first two lookups are returned. An error of one of the other three
  is put into \<open>errChan\<close> and the call goes on: when the workers are done before the
  \<open>select\<close> runs, \<open>select\<close> may take \<open>finished\<close>, and the call returns a list and a
  nil error (first conjunct: the follow lookup fails, and every view has its follow flag
  unset). When two of the three lookups fail, the second send finds the channel full and
  the call never returns, whatever the scheduler does.
\<close>

theorem BatchGetUsers_lookup_error_lost_or_blocking:
  "BatchGetUsers follow_down_env workers_first 1 [2, 3, 4] =
     Returns (Some [Some (bob_view\<lparr>info_IsFollow := False\<rparr>),
                    Some (carol_view\<lparr>info_IsFollow := False\<rparr>),
                    Some dave_view], None) \<and>
   BatchGetUsers follow_fans_down_env fifo 1 [2, 3, 4] = Blocks \<and>
   BatchGetUsers follow_fans_down_env workers_first 1 [2, 3, 4] = Blocks"
  by (simp add: run_defs follow_down_env_def follow_fans_down_env_def demo_env_def
        demo_users_def mk_user_def fifo_def workers_first_def
        bob_view_def carol_view_def dave_view_def)

section \<open>Properties of the follow test\<close>

text \<open>
  C7. \<open>IsFollowedUser\<close> returns a boolean only. It is false when the query returns an
  error, and false when no record is found (the record is left zero), whether or not
  the query reports the missing record as an error.
\<close>

theorem IsFollowedUser_false_on_error_and_not_found:
  "(\<forall>e. snd (find_follow userID followedUID) = Some e \<longrightarrow>
      IsFollowedUser find_follow userID followedUID = False) \<and>
   (FollowID (fst (find_follow userID followedUID)) = 0 \<longrightarrow>
      IsFollowedUser find_follow userID followedUID = False)"
  by (simp add: IsFollowedUser_def case_prod_beta)

text \<open>
  C7, at concrete inputs: a failing query, a pair with no follow row, and for contrast a
  pair with a Normal follow row.
\<close>

theorem IsFollowedUser_false_on_error_and_not_found_witness:
  "snd (db_find_follow empty_db (Some (RepoError ''db down'')) 1 2) = Some (RepoError ''db down'') \<and>
   IsFollowedUser (db_find_follow empty_db (Some (RepoError ''db down''))) 1 2 = False \<and>
   FollowID (fst (db_find_follow empty_db None 1 2)) = 0 \<and>
   IsFollowedUser (db_find_follow empty_db None) 1 2 = False \<and>
   IsFollowedUser (db_find_follow (follow_effect empty_db 1 2) None) 1 2 = True"
proof -
  let ?down = "db_find_follow empty_db (Some (RepoError ''db down''))"
  let ?none = "db_find_follow empty_db None"
  have a: "snd (?down 1 2) = Some (RepoError ''db down'')"
    by (simp add: db_find_follow_def)
  have b: "FollowID (fst (?none 1 2)) = 0"
    by (simp add: db_find_follow_def empty_db_def zero_follow_def)
  have c: "IsFollowedUser (db_find_follow (follow_effect empty_db 1 2) None) 1 2 = True"
    by (simp add: IsFollowedUser_def db_find_follow_def follow_effect_def empty_db_def
        FollowStatusNormal_def)
  from IsFollowedUser_false_on_error_and_not_found [of ?down 1 2] a
  have "IsFollowedUser ?down 1 2 = False" by blast
  moreover from IsFollowedUser_false_on_error_and_not_found [of ?none 1 2] b
  have "IsFollowedUser ?none 1 2 = False" by blast
  ultimately show ?thesis using a b c by simp
qed

section \<open>Properties of the phone login\<close>

text \<open>
  For any repository and signer: when the lookup gives a record with ID 0 and the user is
  created, the token is signed from ID 0 and the username of the lookup's record; the
  created ID is not used.
\<close>

lemma PhoneLogin_signs_lookup_record:
  assumes "repo_GetUserByPhone repo d phone = (Some u, None)" and "ID u = 0"
    and "repo_Create repo d \<lparr>ID = 0, Username = Itoa phone, Password = '''',
                               Phone = phone, Email = ''''\<rparr> = ((newID, None), d')"
    and "token_Sign \<lparr>UserID = 0, ctx_Username = Username u\<rparr> = (tok, None)"
  shows "PhoneLogin repo token_Sign d phone verifyCode = (Returns (tok, None), d')"
  using assms
  by (simp add: PhoneLogin_def GetUserByPhone_def IsRecordNotFoundError_def Let_def)

text \<open>
  C4. The claim is that a login with an unseen phone creates the user and returns a token
  that carries the new user's ID and username. The user is created, with the phone's
  decimal digits as username, but the token is signed from the record of the lookup,
  whose ID is 0: the first login with phone 13800138000 returns the token of user ID 0
  with an empty username, while the user stored has ID 1. The second login finds the
  stored user, creates nothing, and returns the token of ID 1.
\<close>

theorem PhoneLogin_unseen_phone_token:
  "PhoneLogin list_repo claims_Sign [] 13800138000 1234 =
     (Returns (''uid=0;name='', None),
      [\<lparr>ID = 1, Username = ''13800138000'', Password = '''', Phone = 13800138000,
        Email = ''''\<rparr>]) \<and>
   PhoneLogin list_repo claims_Sign
     [\<lparr>ID = 1, Username = ''13800138000'', Password = '''', Phone = 13800138000,
       Email = ''''\<rparr>] 13800138000 1234 =
     (Returns (''uid=1;name=13800138000'', None),
      [\<lparr>ID = 1, Username = ''13800138000'', Password = '''', Phone = 13800138000,
        Email = ''''\<rparr>])"
  by (simp add: PhoneLogin_def GetUserByPhone_def list_repo_def claims_Sign_def zero_user_def
       IsRecordNotFoundError_def errors_Wrap_def Itoa_def Let_def)

end
